theory Spec2Isabelle
  imports Complex_Main "HOL-Library.Log_Nat" "HOL-Library.Char_ord" "HOL-Library.List_Lexorder"
begin

section \<open>Python values\<close>

text \<open>
  A Python \<open>float\<close> is an IEEE 754 binary64 number.  A finite double is represented by the
  rational it denotes; the two zeros are identified (Python's \<open>==\<close> identifies them too).
\<close>

datatype pyfloat = Finite rat | PosInf | NegInf | NaN

text \<open>
  The values a fetched document can hold in a field: \<open>None\<close>, booleans, unbounded integers,
  floats, strings and embedded documents.  Strings are sequences of code points below 256.
  Arrays, dates and object ids are not modelled.
\<close>

datatype pyval =
    PNone
  | PBool bool
  | PInt int
  | PFloat pyfloat
  | PStr string
  | PDict "(string \<times> pyval) list"

type_synonym doc = "string \<rightharpoonup> pyval"

datatype py_exn =
    TypeError
  | ValueError
  | OverflowError
  | ZeroDivisionError
  | ValidationError
  | OtherException string

text \<open>\<open>HTTPException(status_code, detail=str(e))\<close>: the detail is kept as the exception itself.\<close>

datatype http_exception = HTTPException nat py_exn

definition bind_exn :: "'e + 'a \<Rightarrow> ('a \<Rightarrow> 'e + 'b) \<Rightarrow> 'e + 'b" where
  "bind_exn m f = (case m of Inl e \<Rightarrow> Inl e | Inr x \<Rightarrow> f x)"

section \<open>Double-precision arithmetic\<close>

definition pow2 :: "int \<Rightarrow> rat" where
  "pow2 k = (if 0 \<le> k then 2 ^ nat k else 1 / 2 ^ nat (- k))"

definition pow10 :: "int \<Rightarrow> rat" where
  "pow10 k = (if 0 \<le> k then 10 ^ nat k else 1 / 10 ^ nat (- k))"

text \<open>\<open>flog2 q\<close> is the exponent of the binade of a positive rational: \<open>2^e \<le> q < 2^(e+1)\<close>.\<close>

definition flog2 :: "rat \<Rightarrow> int" where
  "flog2 q = (let (p, d) = quotient_of q; k = bitlen p - bitlen d
              in if pow2 k \<le> q then k else k - 1)"

text \<open>Rounding to the nearest integer, ties to the even one.\<close>

definition rhe :: "rat \<Rightarrow> int" where
  "rhe x = (let f = \<lfloor>x\<rfloor>; r = x - of_int f
            in if r < 1 / 2 then f else if 1 / 2 < r then f + 1
               else if even f then f else f + 1)"

text \<open>
  The double nearest to a rational (round to nearest, ties to even): 53 significant bits,
  least exponent \<open>-1022\<close> (below it the spacing stays \<open>2^-1074\<close>), overflow to an infinity
  from \<open>2^1024\<close> on.
\<close>

definition to_double :: "rat \<Rightarrow> pyfloat" where
  "to_double q =
     (if q = 0 then Finite 0
      else let e = max (flog2 \<bar>q\<bar>) (- 1022);
               ulp = pow2 (e - 52);
               r = of_int (rhe (\<bar>q\<bar> / ulp)) * ulp
           in if pow2 1024 \<le> r then (if 0 < q then PosInf else NegInf)
              else Finite (if 0 < q then r else - r))"

text \<open>\<open>x + y\<close> on floats.\<close>

fun fadd :: "pyfloat \<Rightarrow> pyfloat \<Rightarrow> pyfloat" where
  "fadd (Finite a) (Finite b) = to_double (a + b)"
| "fadd NaN _ = NaN"
| "fadd _ NaN = NaN"
| "fadd PosInf NegInf = NaN"
| "fadd NegInf PosInf = NaN"
| "fadd PosInf _ = PosInf"
| "fadd NegInf _ = NegInf"
| "fadd _ PosInf = PosInf"
| "fadd _ NegInf = NegInf"

text \<open>\<open>float(n)\<close> for an integer \<open>n\<close>: correctly rounded, \<open>OverflowError\<close> when too large.\<close>

definition int_to_float :: "int \<Rightarrow> py_exn + pyfloat" where
  "int_to_float n =
     (case to_double (of_int n) of Finite r \<Rightarrow> Inr (Finite r) | _ \<Rightarrow> Inl OverflowError)"

text \<open>\<open>x / n\<close> for a float \<open>x\<close> and an integer \<open>n\<close>: the integer is converted first.\<close>

definition truediv_int :: "pyfloat \<Rightarrow> int \<Rightarrow> py_exn + pyfloat" where
  "truediv_int x n =
     bind_exn (int_to_float n) (\<lambda>y.
       case y of
         Finite b \<Rightarrow>
           if b = 0 then Inl ZeroDivisionError
           else Inr (case x of
                       Finite a \<Rightarrow> to_double (a / b)
                     | PosInf \<Rightarrow> if 0 < b then PosInf else NegInf
                     | NegInf \<Rightarrow> if 0 < b then NegInf else PosInf
                     | NaN \<Rightarrow> NaN)
       | _ \<Rightarrow> Inl OverflowError)"

text \<open>
  \<open>round(x, ndigits)\<close> for a float \<open>x\<close> and \<open>ndigits \<ge> 0\<close>: the exact value of \<open>x\<close> is rounded
  to \<open>ndigits\<close> decimals (ties to even) and the decimal is converted back to the nearest
  double.  Infinities and NaN are returned unchanged, and so is \<open>x\<close> when \<open>ndigits\<close> exceeds 323.
\<close>

definition py_round :: "pyfloat \<Rightarrow> nat \<Rightarrow> py_exn + pyfloat" where
  "py_round x ndigits =
     (case x of
        Finite q \<Rightarrow>
          if 323 < ndigits then Inr x
          else (case to_double (of_int (rhe (q * 10 ^ ndigits)) / 10 ^ ndigits) of
                  Finite r \<Rightarrow> Inr (Finite r)
                | _ \<Rightarrow> Inl OverflowError)
      | _ \<Rightarrow> Inr x)"

section \<open>Conversion of a string to a float\<close>

definition is_space :: "char \<Rightarrow> bool" where
  "is_space c = ((of_char c :: nat) \<in> {9, 10, 11, 12, 13, 32, 133, 160})"

definition is_digit :: "char \<Rightarrow> bool" where
  "is_digit c = (48 \<le> (of_char c :: nat) \<and> (of_char c :: nat) \<le> 57)"

definition to_lower :: "char \<Rightarrow> char" where
  "to_lower c = (if 65 \<le> (of_char c :: nat) \<and> (of_char c :: nat) \<le> 90
                 then char_of (of_char c + (32 :: nat)) else c)"

definition strip :: "string \<Rightarrow> string" where
  "strip s = rev (dropWhile is_space (rev (dropWhile is_space s)))"

text \<open>An underscore is allowed only between two digits.\<close>

fun underscores_ok :: "char option \<Rightarrow> string \<Rightarrow> bool" where
  "underscores_ok prev [] = (prev \<noteq> Some CHR ''_'')"
| "underscores_ok prev (c # cs) =
     ((if c = CHR ''_'' then (case prev of Some p \<Rightarrow> is_digit p | None \<Rightarrow> False)
       else (if prev = Some CHR ''_'' then is_digit c else True))
      \<and> underscores_ok (Some c) cs)"

definition digits_val :: "string \<Rightarrow> nat" where
  "digits_val ds = foldl (\<lambda>a c. 10 * a + (of_char c - 48)) 0 ds"

definition split_sign :: "string \<Rightarrow> bool \<times> string" where
  "split_sign s =
     (case s of
        [] \<Rightarrow> (False, [])
      | c # cs \<Rightarrow> if c = CHR ''-'' then (True, cs)
                  else if c = CHR ''+'' then (False, cs) else (False, s))"

text \<open>
  The exponent part: \<open>e\<close> or \<open>E\<close>, an optional sign and at least one digit; when the digits
  are missing nothing is consumed.
\<close>

definition parse_exponent :: "string \<Rightarrow> int \<times> string" where
  "parse_exponent s =
     (case s of
        [] \<Rightarrow> (0, [])
      | c # cs \<Rightarrow>
          if c = CHR ''e'' \<or> c = CHR ''E'' then
            (let (neg, r) = split_sign cs;
                 ds = takeWhile is_digit r
             in if ds = [] then (0, s)
                else ((if neg then - int (digits_val ds) else int (digits_val ds)),
                      dropWhile is_digit r))
          else (0, s))"

definition parse_number :: "bool \<Rightarrow> string \<Rightarrow> pyfloat option" where
  "parse_number neg s =
     (let ip = takeWhile is_digit s;
          r1 = dropWhile is_digit s;
          (fp, r2) = (case r1 of
                        [] \<Rightarrow> ([], [])
                      | c # cs \<Rightarrow> if c = CHR ''.''
                                  then (takeWhile is_digit cs, dropWhile is_digit cs)
                                  else ([], r1))
      in if ip = [] \<and> fp = [] then None
         else (let (ex, r3) = parse_exponent r2
               in if r3 \<noteq> [] then None
                  else (let m = of_nat (digits_val (ip @ fp)) * pow10 (ex - int (length fp))
                        in Some (to_double (if neg then - m else m)))))"

text \<open>
  \<open>float(s)\<close> for a string: surrounding white space is dropped, underscores between digits
  are dropped, then an optional sign is followed by \<open>inf\<close>, \<open>infinity\<close> or \<open>nan\<close> in any case,
  or by a decimal number with an optional exponent.
\<close>

definition parse_float :: "string \<Rightarrow> pyfloat option" where
  "parse_float s0 =
     (let s = strip s0
      in if \<not> underscores_ok None s then None
         else (let (neg, body) = split_sign (filter (\<lambda>c. c \<noteq> CHR ''_'') s);
                   low = map to_lower body
               in if low = ''inf'' \<or> low = ''infinity''
                  then Some (if neg then NegInf else PosInf)
                  else if low = ''nan'' then Some NaN
                  else parse_number neg body))"

text \<open>\<open>float(v)\<close>.\<close>

definition py_float :: "pyval \<Rightarrow> py_exn + pyfloat" where
  "py_float v =
     (case v of
        PNone \<Rightarrow> Inl TypeError
      | PBool b \<Rightarrow> Inr (Finite (if b then 1 else 0))
      | PInt n \<Rightarrow> int_to_float n
      | PFloat x \<Rightarrow> Inr x
      | PStr s \<Rightarrow> (case parse_float s of None \<Rightarrow> Inl ValueError | Some x \<Rightarrow> Inr x)
      | PDict _ \<Rightarrow> Inl TypeError)"

section \<open>Dictionaries keyed by values\<close>

text \<open>Embedded documents are the unhashable values.\<close>

definition hashable :: "pyval \<Rightarrow> bool" where
  "hashable v = (case v of PDict _ \<Rightarrow> False | _ \<Rightarrow> True)"

text \<open>The numeric value of a boolean, an integer or a float.\<close>

definition py_num :: "pyval \<Rightarrow> pyfloat option" where
  "py_num v =
     (case v of
        PBool b \<Rightarrow> Some (Finite (if b then 1 else 0))
      | PInt n \<Rightarrow> Some (Finite (of_int n))
      | PFloat x \<Rightarrow> Some x
      | _ \<Rightarrow> None)"

text \<open>
  \<open>==\<close> on hashable values: numbers are compared by their exact value whatever their type,
  NaN equals nothing, other values are equal when they are the same.  The values of two
  documents are distinct objects, so a NaN is never found by identity.
\<close>

definition key_eq :: "pyval \<Rightarrow> pyval \<Rightarrow> bool" where
  "key_eq a b =
     (case (py_num a, py_num b) of
        (Some x, Some y) \<Rightarrow> x \<noteq> NaN \<and> x = y
      | (None, None) \<Rightarrow> a = b
      | _ \<Rightarrow> False)"

type_synonym counter = "(pyval \<times> int) list"

text \<open>\<open>m.get(k, default)\<close> on a dictionary kept in insertion order.\<close>

definition dict_get :: "counter \<Rightarrow> pyval \<Rightarrow> int \<Rightarrow> py_exn + int" where
  "dict_get m k dflt =
     (if \<not> hashable k then Inl TypeError
      else Inr (case find (\<lambda>e. key_eq (fst e) k) m of None \<Rightarrow> dflt | Some e \<Rightarrow> snd e))"

text \<open>\<open>m[k] = v\<close>: an entry with an equal key keeps its key and takes the value.\<close>

fun dict_store :: "counter \<Rightarrow> pyval \<Rightarrow> int \<Rightarrow> counter" where
  "dict_store [] k v = [(k, v)]"
| "dict_store (e # m) k v =
     (if key_eq (fst e) k then (fst e, v) # m else e # dict_store m k v)"

definition dict_set :: "counter \<Rightarrow> pyval \<Rightarrow> int \<Rightarrow> py_exn + counter" where
  "dict_set m k v = (if \<not> hashable k then Inl TypeError else Inr (dict_store m k v))"

text \<open>\<open>d.get(k, default)\<close> on a document.\<close>

definition doc_get :: "doc \<Rightarrow> string \<Rightarrow> pyval \<Rightarrow> pyval" where
  "doc_get d k dflt = (case d k of None \<Rightarrow> dflt | Some v \<Rightarrow> v)"

text \<open>\<open>v in {"reported", "dispatched", "on_scene"}\<close>: the value is hashed first.\<close>

definition in_open_statuses :: "pyval \<Rightarrow> py_exn + bool" where
  "in_open_statuses v =
     (if \<not> hashable v then Inl TypeError
      else Inr (list_ex (\<lambda>s. key_eq (PStr s) v) [''reported'', ''dispatched'', ''on_scene'']))"

section \<open>The analytics summary\<close>

record acc =
  by_type :: counter
  by_severity :: counter
  open_cases :: int
  response_sum :: pyfloat
  response_count :: int

record summary =
  out_total :: int
  out_open :: int
  out_avg_response_minutes :: "pyfloat option"
  out_by_type :: counter
  out_by_severity :: counter

text \<open>One iteration of \<open>for d in docs\<close>.\<close>

definition analytics_summary_step :: "acc \<Rightarrow> doc \<Rightarrow> py_exn + acc" where
  "analytics_summary_step a d =
     (let t = doc_get d ''type'' (PStr ''other'') in
      bind_exn (dict_get (by_type a) t 0) (\<lambda>ct.
      bind_exn (dict_set (by_type a) t (ct + 1)) (\<lambda>bt.
      let s = doc_get d ''severity'' (PStr ''medium'') in
      bind_exn (dict_get (by_severity a) s 0) (\<lambda>cs.
      bind_exn (dict_set (by_severity a) s (cs + 1)) (\<lambda>bs.
      bind_exn (in_open_statuses (doc_get d ''status'' PNone)) (\<lambda>is_open.
      let oc = (if is_open then open_cases a + 1 else open_cases a) in
      if doc_get d ''response_minutes'' PNone \<noteq> PNone then
        (case d ''response_minutes'' of
           None \<Rightarrow> Inl (OtherException ''KeyError'')
         | Some v \<Rightarrow>
             bind_exn (py_float v) (\<lambda>x.
               Inr \<lparr>by_type = bt, by_severity = bs, open_cases = oc,
                    response_sum = fadd (response_sum a) x,
                    response_count = response_count a + 1\<rparr>))
      else
        Inr \<lparr>by_type = bt, by_severity = bs, open_cases = oc,
             response_sum = response_sum a, response_count = response_count a\<rparr>))))))"

fun analytics_summary_loop :: "acc \<Rightarrow> doc list \<Rightarrow> py_exn + acc" where
  "analytics_summary_loop a [] = Inr a"
| "analytics_summary_loop a (d # ds) =
     bind_exn (analytics_summary_step a d) (\<lambda>a'. analytics_summary_loop a' ds)"

text \<open>Lines 114 to 119: the variables before the loop.\<close>

definition acc0 :: acc where
  "acc0 = \<lparr>by_type = [], by_severity = [], open_cases = 0,
           response_sum = Finite 0, response_count = 0\<rparr>"

text \<open>Lines 113 to 141: the aggregation over the fetched documents.\<close>

definition analytics_summary_body :: "doc list \<Rightarrow> py_exn + summary" where
  "analytics_summary_body docs =
     (let total = int (length docs)
      in bind_exn (analytics_summary_loop acc0 docs) (\<lambda>a.
         bind_exn (if response_count a \<noteq> 0
                   then bind_exn (truediv_int (response_sum a) (response_count a)) (\<lambda>m.
                        bind_exn (py_round m 2) (\<lambda>r. Inr (Some r)))
                   else Inr None) (\<lambda>avg_response.
         Inr \<lparr>out_total = total, out_open = open_cases a,
              out_avg_response_minutes = avg_response,
              out_by_type = by_type a, out_by_severity = by_severity a\<rparr>)))"

text \<open>
  The store is not part of the sources: \<open>get_documents(collection, filters, limit)\<close> is a
  parameter, returning the fetched documents or raising.
\<close>

type_synonym fetch = "string \<Rightarrow> doc \<Rightarrow> int option \<Rightarrow> py_exn + doc list"

text \<open>Lines 108 to 110: \<open>if precinct: filters["precinct"] = precinct\<close>.\<close>

definition analytics_filters :: "string option \<Rightarrow> doc" where
  "analytics_filters precinct =
     (case precinct of
        None \<Rightarrow> Map.empty
      | Some p \<Rightarrow> if p \<noteq> [] then [''precinct'' \<mapsto> PStr p] else Map.empty)"

definition analytics_summary ::
  "fetch \<Rightarrow> string option \<Rightarrow> string option \<Rightarrow> http_exception + summary" where
  "analytics_summary get_documents precinct period =
     (case bind_exn (get_documents ''incident'' (analytics_filters precinct) None)
             analytics_summary_body of
        Inl e \<Rightarrow> Inl (HTTPException 500 e)
      | Inr r \<Rightarrow> Inr r)"

section \<open>Auxiliary functions of the loop\<close>

text \<open>Lines 128 and 129 of the loop: the value added to \<open>response_sum\<close>, if any.\<close>

definition step_response :: "doc \<Rightarrow> py_exn + pyfloat option" where
  "step_response d =
     (case d ''response_minutes'' of
        None \<Rightarrow> Inr None
      | Some v \<Rightarrow> if v = PNone then Inr None else bind_exn (py_float v) (\<lambda>x. Inr (Some x)))"

text \<open>
  The same lines when they do not raise: the float that \<open>float(d["response_minutes"])\<close>
  returns, or nothing for a record that is skipped.
\<close>

definition converted_minutes :: "doc \<Rightarrow> pyfloat option" where
  "converted_minutes d =
     (case d ''response_minutes'' of
        None \<Rightarrow> None
      | Some v \<Rightarrow> (case py_float v of Inl e \<Rightarrow> None | Inr x \<Rightarrow> Some x))"

text \<open>\<open>m.get(k, 0)\<close> for a hashable key.\<close>

definition lookup :: "counter \<Rightarrow> pyval \<Rightarrow> int" where
  "lookup m k = (case find (\<lambda>e. key_eq (fst e) k) m of None \<Rightarrow> 0 | Some e \<Rightarrow> snd e)"

section \<open>Notions of the specification\<close>

text \<open>The records a predicate holds of, counted.\<close>

definition count_where :: "(doc \<Rightarrow> bool) \<Rightarrow> doc list \<Rightarrow> int" where
  "count_where P docs = int (length (filter P docs))"

text \<open>
  An open case: the \<open>status\<close> field is present and is exactly one of the three strings.
\<close>

definition open_status :: "doc \<Rightarrow> bool" where
  "open_status d =
     (d ''status'' \<in> {Some (PStr ''reported''), Some (PStr ''dispatched''),
                       Some (PStr ''on_scene'')})"






section \<open>Example documents\<close>

text \<open>
  Three fetched documents: a complete one, one whose \<open>type\<close> and \<open>severity\<close> are null, and one
  that only has \<open>response_minutes\<close>, as a string.
\<close>

definition example_docs :: "doc list" where
  "example_docs =
     [[''type'' \<mapsto> PStr ''theft'', ''severity'' \<mapsto> PStr ''high'',
       ''status'' \<mapsto> PStr ''dispatched'', ''response_minutes'' \<mapsto> PInt 10],
      [''type'' \<mapsto> PNone, ''severity'' \<mapsto> PNone,
       ''status'' \<mapsto> PStr ''closed'', ''response_minutes'' \<mapsto> PInt 15],
      [''response_minutes'' \<mapsto> PStr ''20'']]"

definition example_summary :: summary where
  "example_summary =
     \<lparr>out_total = 3, out_open = 1, out_avg_response_minutes = Some (Finite 15),
      out_by_type = [(PStr ''theft'', 1), (PNone, 1), (PStr ''other'', 1)],
      out_by_severity = [(PStr ''high'', 1), (PNone, 1), (PStr ''medium'', 1)]\<rparr>"

text \<open>A store that returns the same documents whatever the query.\<close>

definition const_store :: "doc list \<Rightarrow> fetch" where
  "const_store docs = (\<lambda>collection filters limit. Inr docs)"




text \<open>
  Malformed labels: a number as \<open>type\<close>, a boolean as \<open>severity\<close>, an unknown string as
  \<open>status\<close>; and a record without any field.
\<close>

definition malformed_docs :: "doc list" where
  "malformed_docs =
     [[''type'' \<mapsto> PInt 42, ''severity'' \<mapsto> PBool True, ''status'' \<mapsto> PStr ''unknown''],
      Map.empty]"

section \<open>Properties of the double-precision arithmetic\<close>

lemma pow2_powi: "pow2 k = 2 powi k"
  by (simp add: pow2_def power_int_def inverse_eq_divide power_one_over)

lemma pow2_pos [simp]: "0 < pow2 k"
  by (simp add: pow2_powi)

lemma pow2_add: "pow2 (a + b) = pow2 a * pow2 b"
  by (simp add: pow2_powi power_int_add)

lemma pow2_less_iff [simp]: "pow2 a < pow2 b \<longleftrightarrow> a < b"
  unfolding pow2_powi
  by (metis linorder_not_less one_less_numeral_iff order.asym power_int_increasing power_int_strict_increasing semiring_norm(76) order_le_less)

lemma pow2_le_iff [simp]: "pow2 a \<le> pow2 b \<longleftrightarrow> a \<le> b"
  by (metis linorder_not_less pow2_less_iff)

lemma pow2_nat: "pow2 (int n) = 2 ^ n"
  by (simp add: pow2_def)

lemma bitlen_pow2_bounds:
  assumes "0 < p"
  shows "pow2 (bitlen p - 1) \<le> of_int p" "of_int p < pow2 (bitlen p)"
proof -
  from assms have b1: "1 \<le> bitlen p" by (auto simp: bitlen_alt_def)
  from bitlen_bounds[OF assms] have l: "2 ^ nat (bitlen p - 1) \<le> p" and u: "p < 2 ^ nat (bitlen p)"
    by auto
  have "pow2 (bitlen p - 1) = of_int (2 ^ nat (bitlen p - 1))"
    using b1 by (simp add: pow2_def)
  also have "\<dots> \<le> of_int p" using l by (simp only: of_int_le_iff)
  finally show "pow2 (bitlen p - 1) \<le> of_int p" .
  have "of_int p < (of_int (2 ^ nat (bitlen p)) :: rat)" using u by (simp only: of_int_less_iff)
  also have "\<dots> = pow2 (bitlen p)" using b1 by (simp add: pow2_def)
  finally show "of_int p < pow2 (bitlen p)" .
qed

lemma flog2_bounds:
  assumes "0 < q"
  shows "pow2 (flog2 q) \<le> q \<and> q < pow2 (flog2 q + 1)"
proof -
  obtain p d where pd: "quotient_of q = (p, d)" by force
  have d: "0 < d" using quotient_of_denom_pos[OF pd] .
  have q: "q = of_int p / of_int d" using quotient_of_div[OF pd] .
  have p: "0 < p" using assms d q by (simp add: zero_less_divide_iff)
  define k where "k = bitlen p - bitlen d"
  note bp = bitlen_pow2_bounds[OF p] and bd = bitlen_pow2_bounds[OF d]
  have dq: "of_int p = q * of_int d" using d q by simp
  have up: "q < pow2 (k + 1)"
  proof -
    have "q * pow2 (bitlen d - 1) \<le> q * of_int d" using assms bd(1) by simp
    also have "\<dots> < pow2 (bitlen p)" using bp(2) dq by simp
    also have "\<dots> = pow2 (k + 1) * pow2 (bitlen d - 1)" by (simp add: k_def pow2_add[symmetric])
    finally show ?thesis by simp
  qed
  have lo: "pow2 (k - 1) < q"
  proof -
    have "pow2 (k - 1) * pow2 (bitlen d) = pow2 (bitlen p - 1)" by (simp add: k_def pow2_add[symmetric])
    also have "\<dots> \<le> q * of_int d" using bp(1) dq by simp
    also have "\<dots> < q * pow2 (bitlen d)" using assms bd(2) by simp
    finally show ?thesis by simp
  qed
  have f: "flog2 q = (if pow2 k \<le> q then k else k - 1)"
    by (simp add: flog2_def pd k_def Let_def)
  show ?thesis
  proof (cases "pow2 k \<le> q")
    case True
    with f up show ?thesis by simp
  next
    case False
    with f lo show ?thesis by simp
  qed
qed

lemma flog2_less: "0 < q \<Longrightarrow> q < pow2 a \<Longrightarrow> flog2 q < a"
  using flog2_bounds[of q] by (metis order_le_less_trans pow2_less_iff)

lemma flog2_ge: "0 < q \<Longrightarrow> pow2 a \<le> q \<Longrightarrow> a \<le> flog2 q"
  using flog2_bounds[of q]
  by (metis add1_zle_eq order_le_less_trans pow2_less_iff zle_add1_eq_le less_le_not_le linorder_not_less)

lemma rhe_of_int [simp]: "rhe (of_int n) = n"
  by (simp add: rhe_def)

lemma pow2_neg: "pow2 (- int j) = 1 / 2 ^ j"
  by (simp add: pow2_powi power_int_minus divide_inverse)

lemma to_double_exact:
  assumes int: "q * 2 ^ j \<in> \<int>" and small: "\<bar>q\<bar> * 2 ^ j < 2 ^ 53" and j: "j \<le> 1074"
  shows "to_double q = Finite q"
proof (cases "q = 0")
  case True
  then show ?thesis by (simp add: to_double_def)
next
  case False
  then have a: "0 < \<bar>q\<bar>" by simp
  define e where "e = max (flog2 \<bar>q\<bar>) (- 1022)"
  have p53: "pow2 53 = 2 ^ 53" by (simp add: pow2_def)
  have "\<bar>q\<bar> < 2 ^ 53 / 2 ^ j" using small by (simp add: field_simps)
  then have lt: "\<bar>q\<bar> < pow2 (53 - int j)"
    using pow2_add[of 53 "- int j"] by (simp add: pow2_neg p53)
  have fl: "flog2 \<bar>q\<bar> < 53 - int j" using a lt by (rule flog2_less)
  with j have e: "e - 52 \<le> - int j" by (simp add: e_def)
  define i where "i = nat (- int j - (e - 52))"
  have i: "- int j = (e - 52) + int i" using e by (simp add: i_def)
  have "\<bar>q * 2 ^ j\<bar> \<in> \<int>" using int by (rule Ints_abs)
  then have "\<bar>q\<bar> * 2 ^ j \<in> \<int>" by (simp add: abs_mult)
  then obtain n where n: "\<bar>q\<bar> * 2 ^ j = of_int n" by (auto elim: Ints_cases)
  have "\<bar>q\<bar> = of_int n * pow2 (- int j)"
    using n by (simp add: pow2_neg field_simps)
  also have "\<dots> = of_int n * pow2 (int i) * pow2 (e - 52)"
    by (simp add: i pow2_add)
  finally have q1: "\<bar>q\<bar> = of_int (n * 2 ^ i) * pow2 (e - 52)"
    by (simp add: pow2_nat)
  have pe: "pow2 (e - 52) \<noteq> 0" by (metis pow2_pos order_less_irrefl)
  have q: "\<bar>q\<bar> / pow2 (e - 52) = of_int (n * 2 ^ i)"
    using pe by (subst q1) simp
  have r: "of_int (rhe (\<bar>q\<bar> / pow2 (e - 52))) * pow2 (e - 52) = \<bar>q\<bar>"
    unfolding q rhe_of_int using q1 by simp
  have "pow2 (53 - int j) \<le> pow2 1024" by simp
  with lt have "\<bar>q\<bar> < pow2 1024" by (rule less_le_trans)
  then have lt': "\<not> pow2 1024 \<le> \<bar>q\<bar>" by (simp only: not_le)
  have "to_double q = Finite (if 0 < q then \<bar>q\<bar> else - \<bar>q\<bar>)"
    by (subst to_double_def) (simp only: False if_False Let_def e_def[symmetric] r lt')
  then show ?thesis by (simp add: abs_if)
qed


lemma to_double_int: "\<bar>n\<bar> < 2 ^ 53 \<Longrightarrow> to_double (of_int n) = Finite (of_int n)"
proof -
  assume "\<bar>n\<bar> < 2 ^ 53"
  then have "(of_int \<bar>n\<bar> :: rat) < of_int (2 ^ 53)" by (simp only: of_int_less_iff)
  then show ?thesis by (intro to_double_exact[of _ 0]) simp_all
qed

lemma rhe_err: "\<bar>of_int (rhe x) - x\<bar> \<le> 1 / 2"
proof -
  have 1: "of_int \<lfloor>x\<rfloor> \<le> x" and 2: "x < of_int \<lfloor>x\<rfloor> + 1" by linarith+
  show ?thesis
    using 1 2 by (simp add: rhe_def Let_def abs_if) linarith
qed

lemma flog2_unique:
  assumes "0 < q" "pow2 e \<le> q" "q < pow2 (e + 1)"
  shows "flog2 q = e"
proof -
  from flog2_ge[OF assms(1,2)] have "e \<le> flog2 q" .
  moreover from flog2_less[OF assms(1,3)] have "flog2 q < e + 1" .
  ultimately show ?thesis by simp
qed

lemma pow2_half: "pow2 (e - 52) / 2 = pow2 (e - 53)"
proof -
  have "pow2 (e - 52) = pow2 (e - 53) * pow2 1" by (simp add: pow2_add[symmetric])
  then show ?thesis by (simp add: pow2_def)
qed

lemma to_double_err:
  assumes b: "\<bar>q\<bar> \<le> pow2 E" and lo: "- 1022 \<le> E" and hi: "E \<le> 1023"
  shows "\<exists>r. to_double q = Finite r \<and> \<bar>r - q\<bar> \<le> pow2 (E - 53)"
proof (cases "q = 0")
  case True
  have "0 < pow2 (E - 53)" by simp
  then show ?thesis using True by (simp add: to_double_def less_imp_le)
next
  case False
  then have a: "0 < \<bar>q\<bar>" by simp
  define e where "e = max (flog2 \<bar>q\<bar>) (- 1022)"
  define ulp where "ulp = pow2 (e - 52)"
  define n where "n = rhe (\<bar>q\<bar> / ulp)"
  have up: "0 < ulp" by (simp add: ulp_def)
  from flog2_bounds[OF a] b have "pow2 (flog2 \<bar>q\<bar>) \<le> pow2 E" by (metis order_trans)
  then have "flog2 \<bar>q\<bar> \<le> E" by simp
  with lo have eE: "e \<le> E" by (simp add: e_def)
  have "\<bar>of_int n - \<bar>q\<bar> / ulp\<bar> \<le> 1 / 2" unfolding n_def by (rule rhe_err)
  then have "\<bar>of_int n - \<bar>q\<bar> / ulp\<bar> * ulp \<le> 1 / 2 * ulp"
    using up by (simp only: mult_le_cancel_right_pos)
  moreover have "\<bar>of_int n - \<bar>q\<bar> / ulp\<bar> * ulp = \<bar>of_int n * ulp - \<bar>q\<bar>\<bar>"
  proof -
    have "\<bar>of_int n - \<bar>q\<bar> / ulp\<bar> * ulp = \<bar>(of_int n - \<bar>q\<bar> / ulp) * ulp\<bar>"
      using up by (simp add: abs_mult)
    also have "(of_int n - \<bar>q\<bar> / ulp) * ulp = of_int n * ulp - \<bar>q\<bar>"
      using up by (simp add: field_simps)
    finally show ?thesis .
  qed
  moreover have "1 / 2 * ulp = pow2 (e - 53)" using pow2_half[of e] by (simp add: ulp_def)
  ultimately have err: "\<bar>of_int n * ulp - \<bar>q\<bar>\<bar> \<le> pow2 (e - 53)" by simp
  have "pow2 (e - 53) \<le> pow2 (E - 53)" using eE by simp
  with err have err': "\<bar>of_int n * ulp - \<bar>q\<bar>\<bar> \<le> pow2 (E - 53)" by (rule order_trans)
  have "pow2 E \<le> pow2 1023" using hi by simp
  with b have q1023: "\<bar>q\<bar> \<le> pow2 1023" by (rule order_trans)
  have "pow2 (E - 53) \<le> pow2 1022" using hi by simp
  with err' have "\<bar>of_int n * ulp - \<bar>q\<bar>\<bar> \<le> pow2 1022" by (rule order_trans)
  then have "of_int n * ulp \<le> \<bar>q\<bar> + pow2 1022" by linarith
  also have "\<dots> \<le> pow2 1023 + pow2 1022" using q1023 by simp
  also have "\<dots> < pow2 1024"
  proof -
    have "pow2 1023 = 2 * pow2 1022" "pow2 1024 = 4 * pow2 1022"
      using pow2_add[of 1 1022] pow2_add[of 2 1022] by (simp_all add: pow2_def)
    moreover have "0 < pow2 1022" by simp
    ultimately show ?thesis by linarith
  qed
  finally have nov: "\<not> pow2 1024 \<le> of_int n * ulp" by (simp only: not_le)
  have td: "to_double q = Finite (if 0 < q then of_int n * ulp else - (of_int n * ulp))"
    by (subst to_double_def)
       (simp only: False if_False Let_def e_def[symmetric] ulp_def[symmetric] n_def[symmetric] nov)
  show ?thesis
  proof (cases "0 < q")
    case True
    with td err' show ?thesis by simp
  next
    case False
    then have "\<bar>q\<bar> = - q" by simp
    with err' have "\<bar>- (of_int n * ulp) - q\<bar> \<le> pow2 (E - 53)"
      by (metis abs_minus_commute abs_minus_cancel minus_diff_eq diff_minus_eq_add add.commute uminus_add_conv_diff)
    with td False show ?thesis by simp
  qed
qed

section \<open>Properties of the analytics summary\<close>

lemma bind_exn_simps [simp]:
  "bind_exn (Inl e) f = Inl e" "bind_exn (Inr x) f = f x"
  by (simp_all add: bind_exn_def)

lemma key_eq_PStr [simp]: "key_eq (PStr s) v \<longleftrightarrow> v = PStr s"
  by (cases v) (auto simp: key_eq_def py_num_def)

lemma key_eq_PStr2 [simp]: "key_eq v (PStr s) \<longleftrightarrow> v = PStr s"
  by (cases v) (auto simp: key_eq_def py_num_def)

lemma key_eq_PNone [simp]: "key_eq v PNone \<longleftrightarrow> v = PNone"
  by (cases v) (auto simp: key_eq_def py_num_def)

lemma dict_get_hashable: "hashable k \<Longrightarrow> dict_get m k 0 = Inr (lookup m k)"
  by (simp add: dict_get_def lookup_def)

lemma dict_get_unhashable: "\<not> hashable k \<Longrightarrow> dict_get m k v = Inl TypeError"
  by (simp add: dict_get_def)

lemma dict_set_hashable: "hashable k \<Longrightarrow> dict_set m k v = Inr (dict_store m k v)"
  by (simp add: dict_set_def)

lemma in_open_statuses_hashable:
  "hashable v \<Longrightarrow> in_open_statuses v =
     Inr (v \<in> {PStr ''reported'', PStr ''dispatched'', PStr ''on_scene''})"
  by (auto simp: in_open_statuses_def)

lemma in_open_statuses_unhashable: "\<not> hashable v \<Longrightarrow> in_open_statuses v = Inl TypeError"
  by (simp add: in_open_statuses_def)

lemma step_unfold:
  "analytics_summary_step a d =
     (if \<not> hashable (doc_get d ''type'' (PStr ''other'')) \<or>
         \<not> hashable (doc_get d ''severity'' (PStr ''medium'')) \<or>
         \<not> hashable (doc_get d ''status'' PNone) then Inl TypeError
      else bind_exn (step_response d) (\<lambda>ox.
        Inr \<lparr>by_type = dict_store (by_type a) (doc_get d ''type'' (PStr ''other''))
                 (lookup (by_type a) (doc_get d ''type'' (PStr ''other'')) + 1),
             by_severity = dict_store (by_severity a) (doc_get d ''severity'' (PStr ''medium''))
                 (lookup (by_severity a) (doc_get d ''severity'' (PStr ''medium'')) + 1),
             open_cases = open_cases a +
               (if doc_get d ''status'' PNone \<in>
                    {PStr ''reported'', PStr ''dispatched'', PStr ''on_scene''} then 1 else 0),
             response_sum = (case ox of None \<Rightarrow> response_sum a
                             | Some x \<Rightarrow> fadd (response_sum a) x),
             response_count = response_count a + (case ox of None \<Rightarrow> 0 | Some x \<Rightarrow> 1)\<rparr>))"
proof (cases "hashable (doc_get d ''type'' (PStr ''other''))")
  case False
  then show ?thesis
    by (simp add: analytics_summary_step_def Let_def dict_get_unhashable)
next
  case t: True
  show ?thesis
  proof (cases "hashable (doc_get d ''severity'' (PStr ''medium''))")
    case False
    then show ?thesis using t
      by (simp add: analytics_summary_step_def Let_def dict_get_hashable dict_set_hashable
          dict_get_unhashable)
  next
    case s: True
    show ?thesis
    proof (cases "hashable (doc_get d ''status'' PNone)")
      case False
      then show ?thesis using t s
        by (simp add: analytics_summary_step_def Let_def dict_get_hashable dict_set_hashable
            in_open_statuses_unhashable)
    next
      case st: True
      show ?thesis
      proof (cases "d ''response_minutes''")
        case None
        then show ?thesis using t s st
          by (simp add: analytics_summary_step_def Let_def dict_get_hashable dict_set_hashable
              in_open_statuses_hashable step_response_def doc_get_def)
      next
        case (Some v)
        then show ?thesis using t s st
          by (cases "py_float v")
            (simp_all add: analytics_summary_step_def Let_def dict_get_hashable dict_set_hashable
              in_open_statuses_hashable step_response_def doc_get_def)
      qed
    qed
  qed
qed

lemma sum_dict_store:
  "sum_list (map snd (dict_store m k v)) =
   sum_list (map snd m) + v
     - (case find (\<lambda>e. key_eq (fst e) k) m of None \<Rightarrow> 0 | Some e \<Rightarrow> snd e)"
  by (induction m) auto

lemma step_sums:
  assumes "analytics_summary_step a d = Inr a'"
  shows "sum_list (map snd (by_type a')) = sum_list (map snd (by_type a)) + 1"
    and "sum_list (map snd (by_severity a')) = sum_list (map snd (by_severity a)) + 1"
  using assms
  by (auto simp: analytics_summary_step_def Let_def dict_get_def dict_set_def bind_exn_def
      sum_dict_store split: if_splits sum.splits option.splits)

lemma loop_sums:
  "analytics_summary_loop a docs = Inr a' \<Longrightarrow>
   sum_list (map snd (by_type a')) = sum_list (map snd (by_type a)) + int (length docs) \<and>
   sum_list (map snd (by_severity a')) =
     sum_list (map snd (by_severity a)) + int (length docs)"
proof (induction docs arbitrary: a)
  case Nil
  then show ?case by simp
next
  case (Cons d ds)
  from Cons.prems obtain a1 where s: "analytics_summary_step a d = Inr a1"
    and l: "analytics_summary_loop a1 ds = Inr a'"
    by (cases "analytics_summary_step a d") auto
  from Cons.IH[OF l] step_sums[OF s] show ?case by simp
qed

lemma body_result:
  assumes "analytics_summary_body docs = Inr r"
  obtains a where "analytics_summary_loop acc0 docs = Inr a"
    and "out_total r = int (length docs)" and "out_open r = open_cases a"
    and "out_by_type r = by_type a" and "out_by_severity r = by_severity a"
    and "response_count a = 0 \<longrightarrow> out_avg_response_minutes r = None"
    and "response_count a \<noteq> 0 \<longrightarrow>
          (\<exists>m x. truediv_int (response_sum a) (response_count a) = Inr m \<and>
                 py_round m 2 = Inr x \<and> out_avg_response_minutes r = Some x)"
proof -
  from assms obtain a where l: "analytics_summary_loop acc0 docs = Inr a"
    by (cases "analytics_summary_loop acc0 docs") (auto simp: analytics_summary_body_def)
  show ?thesis
  proof (cases "response_count a = 0")
    case True
    with assms l have "r = \<lparr>out_total = int (length docs), out_open = open_cases a,
        out_avg_response_minutes = None,
        out_by_type = by_type a, out_by_severity = by_severity a\<rparr>"
      by (simp add: analytics_summary_body_def)
    with True l that show ?thesis by simp
  next
    case False
    with assms l obtain m where m: "truediv_int (response_sum a) (response_count a) = Inr m"
      by (cases "truediv_int (response_sum a) (response_count a)")
        (auto simp: analytics_summary_body_def)
    with assms l False obtain x where x: "py_round m 2 = Inr x"
      by (cases "py_round m 2") (auto simp: analytics_summary_body_def)
    with assms l False m have "r = \<lparr>out_total = int (length docs), out_open = open_cases a,
        out_avg_response_minutes = Some x,
        out_by_type = by_type a, out_by_severity = by_severity a\<rparr>"
      by (simp add: analytics_summary_body_def)
    with False l m x that show ?thesis by simp
  qed
qed

lemma summary_fetch:
  assumes "get_documents ''incident'' (analytics_filters precinct) None = Inr docs"
  shows "analytics_summary get_documents precinct period =
     (case analytics_summary_body docs of
        Inl e \<Rightarrow> Inl (HTTPException 500 e) | Inr r \<Rightarrow> Inr r)"
  using assms by (simp add: analytics_summary_def)

lemma summary_body:
  assumes "get_documents ''incident'' (analytics_filters precinct) None = Inr docs"
    and "analytics_summary get_documents precinct period = Inr r"
  shows "analytics_summary_body docs = Inr r"
  using assms by (simp add: summary_fetch split: sum.splits)

lemma step_response_numeric: "step_response d = Inr ox \<Longrightarrow> converted_minutes d = ox"
  by (auto simp: step_response_def converted_minutes_def py_float_def bind_exn_def
      split: option.splits if_splits sum.splits)

lemma open_status_doc_get:
  "(doc_get d ''status'' PNone \<in> {PStr ''reported'', PStr ''dispatched'', PStr ''on_scene''})
   = open_status d"
  by (auto simp: doc_get_def open_status_def split: option.splits)

lemma step_Inr:
  assumes "analytics_summary_step a d = Inr a'"
  obtains "hashable (doc_get d ''type'' (PStr ''other''))"
    and "hashable (doc_get d ''severity'' (PStr ''medium''))"
    and "hashable (doc_get d ''status'' PNone)"
    and "step_response d = Inr (converted_minutes d)"
    and "a' = \<lparr>by_type = dict_store (by_type a) (doc_get d ''type'' (PStr ''other''))
                 (lookup (by_type a) (doc_get d ''type'' (PStr ''other'')) + 1),
             by_severity = dict_store (by_severity a) (doc_get d ''severity'' (PStr ''medium''))
                 (lookup (by_severity a) (doc_get d ''severity'' (PStr ''medium'')) + 1),
             open_cases = open_cases a + (if open_status d then 1 else 0),
             response_sum = (case converted_minutes d of None \<Rightarrow> response_sum a
                             | Some x \<Rightarrow> fadd (response_sum a) x),
             response_count = response_count a +
               (case converted_minutes d of None \<Rightarrow> 0 | Some x \<Rightarrow> 1)\<rparr>"
proof -
  from assms have h: "hashable (doc_get d ''type'' (PStr ''other''))"
    "hashable (doc_get d ''severity'' (PStr ''medium''))"
    "hashable (doc_get d ''status'' PNone)"
    by (auto simp: step_unfold split: if_splits)
  from assms h obtain ox where ox: "step_response d = Inr ox"
    by (cases "step_response d") (auto simp: step_unfold)
  note n = step_response_numeric[OF ox]
  from assms h ox n have "a' = \<lparr>by_type = dict_store (by_type a) (doc_get d ''type'' (PStr ''other''))
                 (lookup (by_type a) (doc_get d ''type'' (PStr ''other'')) + 1),
             by_severity = dict_store (by_severity a) (doc_get d ''severity'' (PStr ''medium''))
                 (lookup (by_severity a) (doc_get d ''severity'' (PStr ''medium'')) + 1),
             open_cases = open_cases a + (if open_status d then 1 else 0),
             response_sum = (case converted_minutes d of None \<Rightarrow> response_sum a
                             | Some x \<Rightarrow> fadd (response_sum a) x),
             response_count = response_count a +
               (case converted_minutes d of None \<Rightarrow> 0 | Some x \<Rightarrow> 1)\<rparr>"
    by (simp only: step_unfold open_status_doc_get) simp
  with h ox n that show ?thesis by simp
qed

lemma lookup_dict_store:
  assumes "\<And>v. key_eq v k = (v = k)" "\<And>v. key_eq k v = (v = k)"
  shows "lookup (dict_store m t v) k = (if t = k then v else lookup m k)"
  using assms by (induction m) (auto simp: lookup_def)

lemma loop_Cons:
  assumes "analytics_summary_loop a (d # ds) = Inr a'"
  obtains a1 where "analytics_summary_step a d = Inr a1" "analytics_summary_loop a1 ds = Inr a'"
  using assms by (cases "analytics_summary_step a d") auto

lemma loop_result:
  "analytics_summary_loop a docs = Inr a' \<Longrightarrow>
   open_cases a' = open_cases a + count_where open_status docs \<and>
   response_count a' = response_count a + int (length (List.map_filter converted_minutes docs)) \<and>
   response_sum a' = foldl fadd (response_sum a) (List.map_filter converted_minutes docs)"
proof (induction docs arbitrary: a)
  case Nil
  then show ?case by (simp add: count_where_def List.map_filter_simps)
next
  case (Cons d ds)
  from Cons.prems obtain a1 where s: "analytics_summary_step a d = Inr a1"
    and l: "analytics_summary_loop a1 ds = Inr a'"
    by (rule loop_Cons)
  from s have "open_cases a1 = open_cases a + (if open_status d then 1 else 0)"
    and "response_sum a1 = (case converted_minutes d of None \<Rightarrow> response_sum a
                             | Some x \<Rightarrow> fadd (response_sum a) x)"
    and "response_count a1 = response_count a +
               (case converted_minutes d of None \<Rightarrow> 0 | Some x \<Rightarrow> 1)"
    by (auto elim!: step_Inr)
  with Cons.IH[OF l] show ?case
    by (cases "converted_minutes d")
      (simp_all add: count_where_def List.map_filter_simps)
qed

lemma loop_lookup:
  assumes "\<And>v. key_eq v k = (v = k)" "\<And>v. key_eq k v = (v = k)"
  shows "analytics_summary_loop a docs = Inr a' \<Longrightarrow>
   lookup (by_type a') k = lookup (by_type a) k
      + count_where (\<lambda>d. doc_get d ''type'' (PStr ''other'') = k) docs \<and>
   lookup (by_severity a') k = lookup (by_severity a) k
      + count_where (\<lambda>d. doc_get d ''severity'' (PStr ''medium'') = k) docs"
proof (induction docs arbitrary: a)
  case Nil
  then show ?case by (simp add: count_where_def)
next
  case (Cons d ds)
  from Cons.prems obtain a1 where s: "analytics_summary_step a d = Inr a1"
    and l: "analytics_summary_loop a1 ds = Inr a'"
    by (rule loop_Cons)
  from s have "by_type a1 = dict_store (by_type a) (doc_get d ''type'' (PStr ''other''))
                 (lookup (by_type a) (doc_get d ''type'' (PStr ''other'')) + 1)"
    and "by_severity a1 = dict_store (by_severity a) (doc_get d ''severity'' (PStr ''medium''))
                 (lookup (by_severity a) (doc_get d ''severity'' (PStr ''medium'')) + 1)"
    by (auto elim!: step_Inr)
  with Cons.IH[OF l] show ?case
    by (simp add: lookup_dict_store[OF assms] count_where_def)
qed


text \<open>
  C7.  When the store returns no document, the summary is exactly \<open>total = 0\<close>, \<open>open = 0\<close>,
  \<open>avg_response_minutes = null\<close> with empty \<open>by_type\<close> and \<open>by_severity\<close>.
\<close>

theorem empty_summary:
  "analytics_summary (\<lambda>collection filters limit. Inr []) precinct period =
   Inr \<lparr>out_total = 0, out_open = 0, out_avg_response_minutes = None,
        out_by_type = [], out_by_severity = []\<rparr>"
  by (simp add: analytics_summary_def analytics_summary_body_def acc0_def)

section \<open>Evaluation of the examples\<close>

lemma acc0_simps [simp]:
  "by_type acc0 = []" "by_severity acc0 = []" "open_cases acc0 = 0"
  "response_sum acc0 = Finite 0" "response_count acc0 = 0"
  by (simp_all add: acc0_def)

lemma lookup_Nil [simp]: "lookup [] k = 0"
  by (simp add: lookup_def)


lemma int_to_float_small:
  "\<bar>n\<bar> < 2 ^ 53 \<Longrightarrow> int_to_float n = Inr (Finite (of_int n))"
  by (simp add: int_to_float_def to_double_int)

lemma to_double_numeral [simp]:
  "numeral k < (2 ^ 53 :: rat) \<Longrightarrow> to_double (numeral k) = Finite (numeral k)"
  by (rule to_double_exact[of _ 0]; simp)


lemmas eval_defs = analytics_summary_def analytics_summary_body_def analytics_summary_step_def
  analytics_filters_def doc_get_def dict_get_def dict_set_def hashable_def key_eq_def py_num_def
  in_open_statuses_def Let_def acc0_def const_store_def

lemmas float_defs = py_float_def int_to_float_small truediv_int_def py_round_def rhe_def

lemma py_float_20: "py_float (PStr ''20'') = Inr (Finite 20)"
  by (simp add: py_float_def parse_float_def strip_def is_space_def split_sign_def to_lower_def
      parse_number_def is_digit_def parse_exponent_def digits_val_def pow10_def Let_def)

lemma example_summary_eval:
  "analytics_summary (const_store example_docs) None (Some ''7d'') = Inr example_summary"
proof -
  have 1: "py_float (PInt 10) = Inr (Finite 10)" "py_float (PInt 15) = Inr (Finite 15)"
    by (simp_all add: float_defs)
  have 2: "truediv_int (Finite 45) 3 = Inr (Finite 15)" by (simp add: float_defs)
  have 3: "py_round (Finite 15) 2 = Inr (Finite 15)" by (simp add: float_defs)
  show ?thesis
    by (simp add: eval_defs example_docs_def example_summary_def 1 2 3 py_float_20)
qed

lemma example_fetch:
  "const_store docs ''incident'' (analytics_filters precinct) None = Inr docs"
  by (simp add: const_store_def)

section \<open>The fields of the summary\<close>

text \<open>
  C1.  Whenever the aggregation returns a summary for the fetched list of records, its \<open>total\<close> is
  the length of the list, and the counts of \<open>by_type\<close> and the counts of \<open>by_severity\<close> each add
  up to \<open>total\<close>.
\<close>

theorem summary_totals:
  assumes "get_documents ''incident'' (analytics_filters precinct) None = Inr docs"
    and "analytics_summary get_documents precinct period = Inr r"
  shows "out_total r = int (length docs)
    \<and> sum_list (map snd (out_by_type r)) = out_total r
    \<and> sum_list (map snd (out_by_severity r)) = out_total r"
proof -
  from assms have b: "analytics_summary_body docs = Inr r" by (rule summary_body)
  from b obtain a where "analytics_summary_loop acc0 docs = Inr a"
    and "out_total r = int (length docs)"
    and "out_by_type r = by_type a" and "out_by_severity r = by_severity a"
    by (rule body_result)
  with loop_sums[of acc0 docs a] show ?thesis by simp
qed

theorem summary_totals_witness:
  "analytics_summary (const_store example_docs) None (Some ''7d'') = Inr example_summary
   \<and> out_total example_summary = 3
   \<and> sum_list (map snd (out_by_type example_summary)) = 3
   \<and> sum_list (map snd (out_by_severity example_summary)) = 3"
  using summary_totals[OF example_fetch example_summary_eval] example_summary_eval
  by (simp add: example_docs_def)

text \<open>
  C2.  Whenever the aggregation returns a summary, its \<open>open\<close> field is the number of records
  whose \<open>status\<close> is exactly one of the strings \<open>reported\<close>, \<open>dispatched\<close>, \<open>on_scene\<close>: a record
  without \<open>status\<close> and a record with status \<open>closed\<close> are not counted, a record with status
  \<open>dispatched\<close> is counted, and the match is case-sensitive (\<open>Dispatched\<close> is not counted).
\<close>

theorem open_count:
  assumes "get_documents ''incident'' (analytics_filters precinct) None = Inr docs"
    and "analytics_summary get_documents precinct period = Inr r"
  shows "out_open r = count_where open_status docs
    \<and> (\<forall>d. open_status d \<longleftrightarrow>
          d ''status'' = Some (PStr ''reported'') \<or> d ''status'' = Some (PStr ''dispatched'')
          \<or> d ''status'' = Some (PStr ''on_scene''))
    \<and> (\<forall>d. d ''status'' = None \<longrightarrow> \<not> open_status d)
    \<and> (\<forall>d. d ''status'' = Some (PStr ''closed'') \<longrightarrow> \<not> open_status d)
    \<and> (\<forall>d. d ''status'' = Some (PStr ''dispatched'') \<longrightarrow> open_status d)
    \<and> (\<forall>d. d ''status'' = Some (PStr ''Dispatched'') \<longrightarrow> \<not> open_status d)"
proof -
  from assms have b: "analytics_summary_body docs = Inr r" by (rule summary_body)
  from b obtain a where "analytics_summary_loop acc0 docs = Inr a" "out_open r = open_cases a"
    by (rule body_result)
  with loop_result[of acc0 docs a] have "out_open r = count_where open_status docs" by simp
  then show ?thesis by (simp add: open_status_def)
qed

theorem open_count_witness:
  "analytics_summary (const_store example_docs) None (Some ''7d'') = Inr example_summary
   \<and> out_open example_summary = 1 \<and> count_where open_status example_docs = 1"
  using open_count[OF example_fetch example_summary_eval] example_summary_eval
  by (simp add: example_docs_def example_summary_def count_where_def)

text \<open>
  C10.  Whenever the aggregation returns a summary, the count that \<open>by_type\<close> holds under the key
  null is the number of records whose \<open>type\<close> is present and null, and the count under \<open>other\<close>
  is the number of records whose \<open>type\<close> is absent or is the string \<open>other\<close>; likewise for
  \<open>by_severity\<close> with the default label \<open>medium\<close>.  So a null value is counted under null, and
  the default label is applied only when the key is absent.
\<close>

theorem null_label_counts:
  assumes "get_documents ''incident'' (analytics_filters precinct) None = Inr docs"
    and "analytics_summary get_documents precinct period = Inr r"
  shows "dict_get (out_by_type r) PNone 0 = Inr (count_where (\<lambda>d. d ''type'' = Some PNone) docs)
    \<and> dict_get (out_by_type r) (PStr ''other'') 0 =
        Inr (count_where (\<lambda>d. d ''type'' = None \<or> d ''type'' = Some (PStr ''other'')) docs)
    \<and> dict_get (out_by_severity r) PNone 0 =
        Inr (count_where (\<lambda>d. d ''severity'' = Some PNone) docs)
    \<and> dict_get (out_by_severity r) (PStr ''medium'') 0 =
        Inr (count_where (\<lambda>d. d ''severity'' = None \<or> d ''severity'' = Some (PStr ''medium''))
              docs)"
proof -
  from assms have b: "analytics_summary_body docs = Inr r" by (rule summary_body)
  from b obtain a where l: "analytics_summary_loop acc0 docs = Inr a"
    and t: "out_by_type r = by_type a" and s: "out_by_severity r = by_severity a"
    by (rule body_result)
  have n: "\<And>v. key_eq v PNone = (v = PNone)" "\<And>v. key_eq PNone v = (v = PNone)"
    by (simp, case_tac v, auto simp: key_eq_def py_num_def)
  have o: "\<And>s v. key_eq v (PStr s) = (v = PStr s)" "\<And>s v. key_eq (PStr s) v = (v = PStr s)"
    by simp_all
  have e1: "\<And>d. (doc_get d ''type'' (PStr ''other'') = PNone) = (d ''type'' = Some PNone)"
    and e2: "\<And>d. (doc_get d ''type'' (PStr ''other'') = PStr ''other'') =
               (d ''type'' = None \<or> d ''type'' = Some (PStr ''other''))"
    and e3: "\<And>d. (doc_get d ''severity'' (PStr ''medium'') = PNone) = (d ''severity'' = Some PNone)"
    and e4: "\<And>d. (doc_get d ''severity'' (PStr ''medium'') = PStr ''medium'') =
               (d ''severity'' = None \<or> d ''severity'' = Some (PStr ''medium''))"
    by (auto simp: doc_get_def split: option.splits)
  from loop_lookup[OF n l] loop_lookup[OF o l, of "''other''"] loop_lookup[OF o l, of "''medium''"]
  show ?thesis
    by (simp add: t s dict_get_hashable hashable_def e1 e2 e3 e4)
qed

theorem null_label_counts_witness:
  "analytics_summary (const_store example_docs) None (Some ''7d'') = Inr example_summary
   \<and> dict_get (out_by_type example_summary) PNone 0 = Inr 1
   \<and> dict_get (out_by_type example_summary) (PStr ''other'') 0 = Inr 1
   \<and> count_where (\<lambda>d. d ''type'' = Some PNone) example_docs = 1
   \<and> count_where (\<lambda>d. d ''severity'' = Some PNone) example_docs = 1"
  using null_label_counts[OF example_fetch example_summary_eval] example_summary_eval
  by (simp add: example_docs_def example_summary_def count_where_def dict_get_def hashable_def
      key_eq_def py_num_def)

section \<open>The floating-point mean of bounded response minutes\<close>







section \<open>Roundings of particular numbers\<close>

lemma to_double_eval:
  assumes lo: "pow2 e \<le> \<bar>q\<bar>" and hi: "\<bar>q\<bar> < pow2 (e + 1)"
    and e1: "- 1022 \<le> e" and e2: "e \<le> 1022"
    and n: "rhe (\<bar>q\<bar> / pow2 (e - 52)) = n"
  shows "to_double q =
         Finite (if 0 < q then of_int n * pow2 (e - 52) else - (of_int n * pow2 (e - 52)))"
proof -
  have "0 < pow2 e" by simp
  from this lo have a: "0 < \<bar>q\<bar>" by (rule less_le_trans)
  then have q0: "q \<noteq> 0" by simp
  have fl: "flog2 \<bar>q\<bar> = e" using a lo hi by (rule flog2_unique)
  have mx: "max e (- 1022) = e" using e1 by simp
  from hi have "\<bar>q\<bar> \<le> pow2 (e + 1)" by simp
  from to_double_err[OF this] e1 e2 obtain r where r: "to_double q = Finite r" by auto
  define R where "R = of_int n * pow2 (e - 52)"
  have td: "to_double q = (if pow2 1024 \<le> R then (if 0 < q then PosInf else NegInf)
                           else Finite (if 0 < q then R else - R))"
    by (subst to_double_def) (simp only: q0 if_False Let_def fl mx n R_def)
  show ?thesis
  proof (cases "pow2 1024 \<le> R")
    case True
    with td r show ?thesis by (simp split: if_splits)
  next
    case False
    with td show ?thesis by (simp add: R_def)
  qed
qed

lemma floor_rat_numeral [simp]:
  "\<lfloor>(numeral a :: rat) / numeral b\<rfloor> = numeral a div numeral b"
  using floor_divide_of_int_eq[of "numeral a" "numeral b", where ?'a = rat] by simp

lemma to_double_1 [simp]: "to_double 1 = Finite 1"
  by (rule to_double_exact[of _ 0]; simp)

lemma to_double_2p53: "to_double 9007199254740992 = Finite 9007199254740992"
  using to_double_eval[of 53 9007199254740992 4503599627370496]
  by (simp add: pow2_def rhe_def Let_def)

lemma to_double_2p53_1: "to_double 9007199254740993 = Finite 9007199254740992"
  using to_double_eval[of 53 9007199254740993 4503599627370496]
  by (simp add: pow2_def rhe_def Let_def)

lemma to_double_2p53_div3: "to_double (9007199254740992 / 3) = Finite (6004799503160661 / 2)"
  using to_double_eval[of 51 "9007199254740992 / 3" 6004799503160661]
  by (simp add: pow2_def rhe_def Let_def)

lemma to_double_mean_a: "to_double (6004799503160661 / 2) = Finite (6004799503160661 / 2)"
  by (rule to_double_exact[of _ 1]) simp_all

lemma to_double_2p53_2: "to_double 9007199254740994 = Finite 9007199254740994"
  using to_double_eval[of 53 9007199254740994 4503599627370497]
  by (simp add: pow2_def rhe_def Let_def)

lemma to_double_2p53_2_div3: "to_double (9007199254740994 / 3) = Finite (6004799503160663 / 2)"
  using to_double_eval[of 51 "9007199254740994 / 3" 6004799503160663]
  by (simp add: pow2_def rhe_def Let_def)

lemma to_double_mean_b: "to_double (6004799503160663 / 2) = Finite (6004799503160663 / 2)"
  by (rule to_double_exact[of _ 1]) simp_all

lemma to_double_5_3: "to_double (5 / 3) = Finite (7505999378950827 / 4503599627370496)"
  using to_double_eval[of 0 "5 / 3" 7505999378950827]
  by (simp add: pow2_def rhe_def Let_def)

lemma to_double_167: "to_double (167 / 100) = Finite (940126422213591 / 562949953421312)"
  using to_double_eval[of 0 "167 / 100" 7521011377708728]
  by (simp add: pow2_def rhe_def Let_def)

lemmas round_defs = to_double_2p53 to_double_2p53_1 to_double_2p53_div3 to_double_mean_a
  to_double_2p53_2 to_double_2p53_2_div3 to_double_mean_b to_double_5_3 to_double_167





section \<open>The average response time\<close>




section \<open>Failure and success of the aggregation\<close>


lemma hashable_simps [simp]: "hashable (PStr s)" "hashable PNone" "\<not> hashable (PDict kvs)"
  by (simp_all add: hashable_def)









lemma malformed_eval:
  "analytics_summary (const_store malformed_docs) None None =
   Inr \<lparr>out_total = 2, out_open = 0, out_avg_response_minutes = None,
        out_by_type = [(PInt 42, 1), (PStr ''other'', 1)],
        out_by_severity = [(PBool True, 1), (PStr ''medium'', 1)]\<rparr>"
  by (simp add: eval_defs malformed_docs_def)


section \<open>Errors of the aggregation\<close>




end
